theory Spec2Isabelle
  imports Complex_Main
begin

section \<open>analyze\_colors.py: the teaching snippets\<close>

text \<open>
  Python integers are unbounded, so they are \<open>int\<close>. An exception of the source is a
  value of \<open>py_error\<close>, returned on the left of a sum.
\<close>

datatype py_error = IndexError | ValueError | ZeroDivisionError | RecursionError

subsection \<open>recursive\_search\<close>

text \<open>
  \<^verbatim>\<open>lst[index]\<close> as Python reads it: a negative index counts from the end, and an index
  outside \<open>-len(lst) .. len(lst) - 1\<close> raises IndexError.
\<close>

definition getitem :: "'a list \<Rightarrow> int \<Rightarrow> py_error + 'a" where
  "getitem lst index =
     (let n = int (length lst); j = (if index < 0 then n + index else index)
      in if 0 \<le> j \<and> j < n then Inr (lst ! nat j) else Inl IndexError)"

text \<open>
  \<^verbatim>\<open>
  def recursive_search(lst, target, index=0):
      if index >= len(lst): return -1
      if lst[index] == target: return index
      return recursive_search(lst, target, index+1)
  \<close>
  The index is an argument of the model; the default call passes 0.

  Every call of a Python function takes a frame, and the interpreter refuses a call that
  would take the stack beyond its recursion limit (1000 frames unless the program changes
  it, which this one does not): the call raises RecursionError. \<open>frames\<close> is the number of
  nested calls the interpreter still accepts where \<open>recursive_search\<close> is called, that is
  the limit less the frames in use there; it is at most the limit.
\<close>

fun recursive_search :: "nat \<Rightarrow> int list \<Rightarrow> int \<Rightarrow> int \<Rightarrow> py_error + int" where
  "recursive_search 0 lst target index = Inl RecursionError"
| "recursive_search (Suc frames) lst target index =
     (if index \<ge> int (length lst) then Inr (- 1)
      else (case getitem lst index of
              Inl e \<Rightarrow> Inl e
            | Inr x \<Rightarrow> if x = target then Inr index
                       else recursive_search frames lst target (index + 1)))"

declare recursive_search.simps(2) [simp del]

subsection \<open>sum\_first\_n\_fibonacci\<close>

text \<open>
  \<^verbatim>\<open>
  def sum_first_n_fibonacci(n=50):
      a, b = 0, 1
      total = 0
      for _ in range(n):
          total += a
          a, b = b, a + b
      return total
  \<close>
  The loop state is \<open>(a, b, tot)\<close>, \<open>tot\<close> standing for the source's \<^verbatim>\<open>total\<close>;
  \<^verbatim>\<open>range(n)\<close> runs \<open>nat n\<close> times, that is not at all for a negative \<open>n\<close>.
\<close>

fun fib_loop :: "nat \<Rightarrow> int \<times> int \<times> int \<Rightarrow> int \<times> int \<times> int" where
  "fib_loop 0 s = s"
| "fib_loop (Suc k) (a, b, tot) = fib_loop k (b, a + b, tot + a)"

definition sum_first_n_fibonacci :: "int \<Rightarrow> int" where
  "sum_first_n_fibonacci n = (case fib_loop (nat n) (0, 1, 0) of (a, b, tot) \<Rightarrow> tot)"

text \<open>The sequence the claim refers to, written from its words: \<open>F 0 = 0\<close>, \<open>F 1 = 1\<close>,
  \<open>F k = F (k - 1) + F (k - 2)\<close>.\<close>

fun F :: "nat \<Rightarrow> int" where
  "F 0 = 0"
| "F (Suc 0) = 1"
| "F (Suc (Suc k)) = F (Suc k) + F k"

section \<open>analyze\_colors.py: parsing and normalization\<close>

text \<open>
  A Python string is a \<open>string\<close>, one \<open>char\<close> for each character. The model covers ASCII
  text, which is what the table of color names holds: \<open>is_space\<close> is the whitespace that
  \<^verbatim>\<open>str.strip()\<close> and the pattern \<^verbatim>\<open>\s\<close> know below code 128 (tab, line feed, vertical tab,
  form feed, carriage return, the four separators 28 to 31, and the space), and \<open>upper_char\<close>
  maps \<open>a\<close> to \<open>z\<close> onto \<open>A\<close> to \<open>Z\<close> and leaves every other character alone.
\<close>

definition is_space :: "char \<Rightarrow> bool" where
  "is_space c =
     (let n = (of_char c :: nat) in (9 \<le> n \<and> n \<le> 13) \<or> (28 \<le> n \<and> n \<le> 32))"

definition upper_char :: "char \<Rightarrow> char" where
  "upper_char c =
     (let n = (of_char c :: nat) in if 97 \<le> n \<and> n \<le> 122 then char_of (n - 32) else c)"

text \<open>\<^verbatim>\<open>s.strip()\<close> drops the whitespace at both ends; \<^verbatim>\<open>s.upper()\<close> works character by
  character.\<close>

definition py_strip :: "string \<Rightarrow> string" where
  "py_strip s = rev (dropWhile is_space (rev (dropWhile is_space s)))"

definition py_upper :: "string \<Rightarrow> string" where
  "py_upper s = map upper_char s"

text \<open>\<^verbatim>\<open>d.get(k, default)\<close> on a dictionary kept as an association list.\<close>

definition dict_get :: "('a \<times> 'b) list \<Rightarrow> 'a \<Rightarrow> 'b \<Rightarrow> 'b" where
  "dict_get d k dflt = (case map_of d k of None \<Rightarrow> dflt | Some v \<Rightarrow> v)"

subsection \<open>normalize\_color\<close>

text \<open>
  \<^verbatim>\<open>
  def normalize_color(name):
      s = name.strip().upper()
      corrections = {"BLEW": "BLUE", "BLUW": "BLUE", "BLU": "BLUE"}
      return corrections.get(s, s)
  \<close>
\<close>

definition corrections :: "(string \<times> string) list" where
  "corrections = [(''BLEW'', ''BLUE''), (''BLUW'', ''BLUE''), (''BLU'', ''BLUE'')]"

definition normalize_color :: "string \<Rightarrow> string" where
  "normalize_color name = (let s = py_upper (py_strip name) in dict_get corrections s s)"

subsection \<open>flatten\_colors\<close>

text \<open>
  \<^verbatim>\<open>re.split(r',\s*', line)\<close>: the leftmost match of the pattern starts at the first comma
  and, \<^verbatim>\<open>\s*\<close> being greedy, takes all the whitespace that follows it. The text before the
  comma is one fragment, and the split goes on after the match. A line without a comma is
  one fragment, itself.
\<close>

function re_split :: "string \<Rightarrow> string list" where
  "re_split s =
     (case dropWhile (\<lambda>c. c \<noteq> CHR '','') s of
        [] \<Rightarrow> [s]
      | comma # rest \<Rightarrow>
          takeWhile (\<lambda>c. c \<noteq> CHR '','') s # re_split (dropWhile is_space rest))"
  by pat_completeness auto
termination
proof (relation "measure length")
  show "wf (measure length)" by simp
next
  fix s :: string and comma rest
  assume d: "dropWhile (\<lambda>c. c \<noteq> CHR '','') s = comma # rest"
  have "length (dropWhile is_space rest) \<le> length rest"
    by (rule length_dropWhile_le)
  also have "length rest < length (comma # rest)" by simp
  also have "length (comma # rest) \<le> length s"
    unfolding d [symmetric] by (rule length_dropWhile_le)
  finally show "(dropWhile is_space rest, s) \<in> measure length" by simp
qed

declare re_split.simps [simp del]

text \<open>
  \<^verbatim>\<open>
  def flatten_colors(rows):
      flat = []
      for line in rows:
          parts = [p.strip() for p in re.split(r',\s*', line) if p.strip()]
          flat.extend(normalize_color(p) for p in parts)
      return flat
  \<close>
  \<open>parts\<close> is the list the comprehension builds for one line; an empty string is false.
\<close>

definition parts :: "string \<Rightarrow> string list" where
  "parts line = map py_strip (filter (\<lambda>p. py_strip p \<noteq> []) (re_split line))"

definition flatten_colors :: "string list \<Rightarrow> string list" where
  "flatten_colors rows = fold (\<lambda>line flat. flat @ map normalize_color (parts line)) rows []"

subsection \<open>Counter\<close>

text \<open>
  \<^verbatim>\<open>Counter(flat)\<close> is a dictionary, and a dictionary keeps its keys in the order of their
  first insertion: the model is an association list in that order. Counting one element
  adds 1 to the count of a key already there, in place, and appends a new key with count 1.
\<close>

fun counter_incr :: "'a \<Rightarrow> ('a \<times> int) list \<Rightarrow> ('a \<times> int) list" where
  "counter_incr k [] = [(k, 1)]"
| "counter_incr k ((k', v) # kvs) =
     (if k = k' then (k', v + 1) # kvs else (k', v) # counter_incr k kvs)"

definition Counter :: "'a list \<Rightarrow> ('a \<times> int) list" where
  "Counter xs = fold counter_incr xs []"

subsection \<open>The fragments of a row, in the words of the claim\<close>

text \<open>
  What the claim about the frequency table calls the fragments, written from its words: a
  row is split at every comma (as \<^verbatim>\<open>str.split(',')\<close> does), each piece is stripped, and the
  empty ones are discarded.
\<close>

fun split_commas :: "string \<Rightarrow> string list" where
  "split_commas [] = [[]]"
| "split_commas (c # cs) =
     (if c = CHR '','' then [] # split_commas cs
      else (case split_commas cs of [] \<Rightarrow> [[c]] | f # fs \<Rightarrow> (c # f) # fs))"

definition spec_fragments :: "string list \<Rightarrow> string list" where
  "spec_fragments rows =
     concat (map (\<lambda>line. filter (\<lambda>p. p \<noteq> []) (map py_strip (split_commas line))) rows)"

section \<open>analyze\_colors.py: statistics over the frequency table\<close>

text \<open>
  A frequency table \<open>freq\<close> is a Counter: the association list of its items, with
  \<^verbatim>\<open>freq.items()\<close> the list itself, \<^verbatim>\<open>freq.values()\<close> its second components, and
  \<^verbatim>\<open>not freq\<close> true for the empty list. Being a dictionary, it holds each key once.

  \<^verbatim>\<open>max\<close> of an empty sequence raises ValueError; otherwise it keeps the first largest
  value it meets.
\<close>

definition py_max :: "int list \<Rightarrow> py_error + int" where
  "py_max vals =
     (case vals of
        [] \<Rightarrow> Inl ValueError
      | v # vs \<Rightarrow> Inr (fold (\<lambda>x m. if m < x then x else m) vs v))"

text \<open>
  \<^verbatim>\<open>
  def mode_colors(freq):
      if not freq: return [], 0
      maxf = max(freq.values())
      return [c for c,f in freq.items() if f == maxf], maxf
  \<close>
\<close>

definition mode_colors :: "('a \<times> int) list \<Rightarrow> py_error + ('a list \<times> int)" where
  "mode_colors freq =
     (if freq = [] then Inr ([], 0)
      else (case py_max (map snd freq) of
              Inl e \<Rightarrow> Inl e
            | Inr maxf \<Rightarrow> Inr (map fst (filter (\<lambda>(c, f). f = maxf) freq), maxf)))"

text \<open>
  The division \<^verbatim>\<open>a / b\<close> of Python yields a float. The quotient is kept exact here, as a
  rational number; a zero divisor raises ZeroDivisionError.
\<close>

definition truediv :: "rat \<Rightarrow> rat \<Rightarrow> py_error + rat" where
  "truediv a b = (if b = 0 then Inl ZeroDivisionError else Inr (a / b))"

text \<open>
  \<^verbatim>\<open>
  def variance_of_frequencies(freq):
      if not freq: return 0.0
      vals = list(freq.values())
      meanv = sum(vals) / len(vals)
      return sum((x - meanv)**2 for x in vals) / len(vals)
  \<close>
\<close>

definition variance_of_frequencies :: "('a \<times> int) list \<Rightarrow> py_error + rat" where
  "variance_of_frequencies freq =
     (if freq = [] then Inr 0
      else (let vals = map snd freq
            in case truediv (of_int (sum_list vals)) (of_nat (length vals)) of
                 Inl e \<Rightarrow> Inl e
               | Inr meanv \<Rightarrow>
                   truediv (sum_list (map (\<lambda>x. (of_int x - meanv) ^ 2) vals))
                     (of_nat (length vals))))"

text \<open>
  The population variance of the per-color counts, written from the words of the claim
  about \<open>variance_of_frequencies\<close>, over the table as a map from color to count: the mean
  count is the sum of the counts of the distinct colors over their number, and the variance
  is the sum, over the distinct colors, of the squared deviation of the count from the mean,
  over their number.
\<close>

definition spec_mean :: "('a \<rightharpoonup> int) \<Rightarrow> rat" where
  "spec_mean m = (\<Sum>c \<in> dom m. of_int (the (m c))) / of_nat (card (dom m))"

definition spec_variance :: "('a \<rightharpoonup> int) \<Rightarrow> rat" where
  "spec_variance m =
     (\<Sum>c \<in> dom m. (of_int (the (m c)) - spec_mean m) ^ 2) / of_nat (card (dom m))"

text \<open>
  The part of \<^verbatim>\<open>main\<close> that reports the probability of RED, from the rows that
  \<^verbatim>\<open>extract_color_rows\<close> found. \<^verbatim>\<open>main\<close> returns early, reporting nothing (\<open>None\<close>), when
  there is no row.
  \<^verbatim>\<open>
      if not rows: ...; return
      flat = flatten_colors(rows)
      freq = Counter(flat)
      total = sum(freq.values())
      ...
      red_count = freq.get("RED", 0)
      prob_red = red_count / total if total > 0 else 0.0
  \<close>
\<close>

definition prob_red :: "(string \<times> int) list \<Rightarrow> py_error + rat" where
  "prob_red freq =
     (let tot = sum_list (map snd freq);
          red_count = dict_get freq ''RED'' 0
      in if tot > 0 then truediv (of_int red_count) (of_int tot) else Inr 0)"

definition main_prob_red :: "string list \<Rightarrow> (py_error + rat) option" where
  "main_prob_red rows =
     (if rows = [] then None else Some (prob_red (Counter (flatten_colors rows))))"

section \<open>analyze\_colors.py: saving to PostgreSQL\<close>

text \<open>
  Modelled from the spec: the PostgreSQL server and its driver psycopg2, which the function
  calls, are not part of the repository. A table \<^verbatim>\<open>color_frequencies(color TEXT PRIMARY KEY,
  frequency INT)\<close> is a map from color to frequency, the primary key allowing one row for a
  color; the world holds, for each database name, that table (\<open>None\<close> when the database has
  none) and what has been printed.
\<close>

type_synonym table = "string \<rightharpoonup> int"

datatype message = Saved | Error_saving string

record world =
  tables :: "string \<Rightarrow> table option"
  stdout :: "message list"

text \<open>
  What a call can raise: an instance of \<^verbatim>\<open>Exception\<close> (every error of psycopg2 is one, and so
  are the UnicodeEncodeError and the OSError of a \<^verbatim>\<open>print\<close>), which \<^verbatim>\<open>except Exception\<close>
  catches, or another \<^verbatim>\<open>BaseException\<close> such as KeyboardInterrupt, which it does not. The
  string is the text of the exception.
\<close>

datatype raised = Exception string | Other_BaseException string

text \<open>
  The calls the function makes on the world outside it, with their arguments:
  \<^verbatim>\<open>psycopg2.connect\<close> (dbname, user, password, host, port), \<^verbatim>\<open>conn.cursor()\<close>, the two
  statements, \<^verbatim>\<open>conn.commit()\<close>, \<^verbatim>\<open>cur.close()\<close>, \<^verbatim>\<open>conn.close()\<close>, and \<^verbatim>\<open>print\<close> of one of the
  two messages. A \<^verbatim>\<open>print\<close> can fail like any other call: the success message starts with
  the character U+2705 and the error message holds the text of the exception, which the
  encoding of the standard output may not have, and the output may be closed.

  Whether a call fails is the environment's choice. The calls are numbered by their place
  in the body of the function, the loop unrolled over the \<open>n\<close> items of the table: the
  connection is 0, the cursor 1, the creation of the table 2, the insertions 3 to \<open>2 + n\<close>,
  the commit \<open>3 + n\<close>, the two closes \<open>4 + n\<close> and \<open>5 + n\<close>, the success message \<open>6 + n\<close>,
  and the error message of the handler \<open>7 + n\<close>. \<open>env i c\<close> is what the call \<open>c\<close>, made at
  place \<open>i\<close>, raises, if anything.
\<close>

datatype outside_call =
    Connect string string string string string
  | Cursor
  | Create_table
  | Upsert string int
  | Commit
  | Close_cursor
  | Close_conn
  | Print message

type_synonym environment = "nat \<Rightarrow> outside_call \<Rightarrow> raised option"

text \<open>
  The loop over \<^verbatim>\<open>freq.items()\<close>, on the table as the transaction sees it:
  \<^verbatim>\<open>INSERT ... ON CONFLICT (color) DO UPDATE SET frequency = EXCLUDED.frequency\<close> inserts
  the row of a new color and overwrites the frequency of an existing one. A count that
  does not fit the 32-bit column \<^verbatim>\<open>frequency INT\<close> is refused by the server.
\<close>

fun upsert_all :: "environment \<Rightarrow> nat \<Rightarrow> (string \<times> int) list \<Rightarrow> table \<Rightarrow> raised + table" where
  "upsert_all env i [] t = Inr t"
| "upsert_all env i ((color, count) # items) t =
     (case env i (Upsert color count) of
        Some e \<Rightarrow> Inl e
      | None \<Rightarrow>
          if count < - (2 ^ 31) \<or> 2 ^ 31 \<le> count then Inl (Exception ''integer out of range'')
          else upsert_all env (Suc i) items (t(color \<mapsto> count)))"

text \<open>
  The body of the \<^verbatim>\<open>try\<close>. It raises (left) or ends normally (right), either way with the
  world it leaves: what the transaction did is in the database only once
  \<^verbatim>\<open>conn.commit()\<close> has returned, and the success message is the last step, inside the
  \<^verbatim>\<open>try\<close> like the rest. A \<^verbatim>\<open>print\<close> that raises has written nothing.
  \<^verbatim>\<open>
      conn = psycopg2.connect(dbname=dbname, user="postgres", password="",
                              host="localhost", port="5432")
      cur = conn.cursor()
      cur.execute("CREATE TABLE IF NOT EXISTS color_frequencies (...)")
      for color, count in freq.items():
          cur.execute("INSERT ... ON CONFLICT (color) DO UPDATE ...", (color, count))
      conn.commit()
      cur.close()
      conn.close()
      print("... Colors successfully saved to PostgreSQL table 'color_frequencies'.")
  \<close>
\<close>

definition try_body ::
  "environment \<Rightarrow> (string \<times> int) list \<Rightarrow> string \<Rightarrow> world \<Rightarrow> (raised \<times> world) + world" where
  "try_body env freq dbname w =
     (case env 0 (Connect dbname ''postgres'' '''' ''localhost'' ''5432'') of
        Some e \<Rightarrow> Inl (e, w)
      | None \<Rightarrow>
     (case env 1 Cursor of
        Some e \<Rightarrow> Inl (e, w)
      | None \<Rightarrow>
     (case env 2 Create_table of
        Some e \<Rightarrow> Inl (e, w)
      | None \<Rightarrow>
     (case upsert_all env 3 freq (case tables w dbname of None \<Rightarrow> Map.empty | Some t \<Rightarrow> t) of
        Inl e \<Rightarrow> Inl (e, w)
      | Inr t \<Rightarrow>
     (case env (3 + length freq) Commit of
        Some e \<Rightarrow> Inl (e, w)
      | None \<Rightarrow>
     (let w' = w\<lparr>tables := (tables w)(dbname := Some t)\<rparr>
      in case env (4 + length freq) Close_cursor of
           Some e \<Rightarrow> Inl (e, w')
         | None \<Rightarrow>
        (case env (5 + length freq) Close_conn of
           Some e \<Rightarrow> Inl (e, w')
         | None \<Rightarrow>
        (case env (6 + length freq) (Print Saved) of
           Some e \<Rightarrow> Inl (e, w')
         | None \<Rightarrow> Inr (w'\<lparr>stdout := stdout w' @ [Saved]\<rparr>)))))))))"

text \<open>
  \<^verbatim>\<open>
  def save_to_postgres(freq, dbname="colors_db", user="postgres", password="postgres",
                       host="localhost", port="5432"):
      try:
          ...
      except Exception as e:
          print("Error saving to PostgreSQL:", e)
  \<close>
  The result is on the right when the function returns to its caller and on the left when
  an exception leaves it: one that is not an \<^verbatim>\<open>Exception\<close>, or one that the \<^verbatim>\<open>print\<close> of
  the handler raises, which nothing catches.
\<close>

definition save_to_postgres ::
  "environment \<Rightarrow> (string \<times> int) list \<Rightarrow> string \<Rightarrow> string \<Rightarrow> string \<Rightarrow> string \<Rightarrow> string
     \<Rightarrow> world \<Rightarrow> (raised \<times> world) + world" where
  "save_to_postgres env freq dbname user password host port w =
     (case try_body env freq dbname w of
        Inr w' \<Rightarrow> Inr w'
      | Inl (Exception msg, w') \<Rightarrow>
          (case env (7 + length freq) (Print (Error_saving msg)) of
             Some e \<Rightarrow> Inl (e, w')
           | None \<Rightarrow> Inr (w'\<lparr>stdout := stdout w' @ [Error_saving msg]\<rparr>))
      | Inl (Other_BaseException msg, w') \<Rightarrow> Inl (Other_BaseException msg, w'))"

text \<open>
  A world and four environments to run the function in: the world with no table and
  nothing printed; the environment in which every call succeeds; one in which the server
  refuses every connection; one in which the server refuses every connection and the
  standard output cannot take the error message, so that its \<^verbatim>\<open>print\<close> raises too; and one
  in which the database does all it is asked and the standard output cannot take the
  success message.
\<close>

definition empty_world :: world where
  "empty_world = \<lparr>tables = (\<lambda>d. None), stdout = []\<rparr>"

definition all_succeed :: environment where
  "all_succeed i c = None"

definition refused :: environment where
  "refused i c =
     (case c of
        Connect d u p h po \<Rightarrow> Some (Exception ''connection refused'')
      | _ \<Rightarrow> None)"

definition saved_unprintable :: environment where
  "saved_unprintable i c =
     (case c of
        Print Saved \<Rightarrow> Some (Exception ''UnicodeEncodeError'')
      | _ \<Rightarrow> None)"

definition refused_unprintable :: environment where
  "refused_unprintable i c =
     (case c of
        Connect d u p h po \<Rightarrow> Some (Exception ''connection refused'')
      | Print (Error_saving msg) \<Rightarrow> Some (Exception ''UnicodeEncodeError'')
      | _ \<Rightarrow> None)"

section \<open>Properties\<close>

subsection \<open>Fibonacci prefix sum\<close>

lemma fib_loop_invariant:
  "fib_loop k (F i, F (Suc i), t) = (F (i + k), F (Suc (i + k)), t + (\<Sum>j = i..<i + k. F j))"
proof (induction k arbitrary: i t)
  case 0
  show ?case by simp
next
  case (Suc k)
  have "fib_loop (Suc k) (F i, F (Suc i), t) = fib_loop k (F (Suc i), F (Suc (Suc i)), t + F i)"
    by (simp add: add.commute)
  also have "\<dots> = (F (Suc i + k), F (Suc (Suc i + k)), t + F i + (\<Sum>j = Suc i..<Suc i + k. F j))"
    by (rule Suc.IH)
  also have "t + F i + (\<Sum>j = Suc i..<Suc i + k. F j) = t + (\<Sum>j = i..<i + Suc k. F j)"
    by (simp add: sum.atLeast_Suc_lessThan)
  finally show ?case by simp
qed

lemma sum_F_closed: "(\<Sum>j<n. F j) = F (Suc n) - 1"
proof (induction n)
  case 0
  show ?case by simp
next
  case (Suc n)
  then show ?case by simp
qed

lemma sum_first_n_fibonacci_nat: "sum_first_n_fibonacci (int n) = (\<Sum>j<n. F j)"
proof -
  have "fib_loop n (F 0, F (Suc 0), 0) = (F (0 + n), F (Suc (0 + n)), 0 + (\<Sum>j = 0..<0 + n. F j))"
    by (rule fib_loop_invariant)
  then show ?thesis
    by (simp add: sum_first_n_fibonacci_def lessThan_atLeast0)
qed

text \<open>
  C8. For every \<open>n \<ge> 0\<close>, \<open>sum_first_n_fibonacci n\<close> is the sum \<open>F 0 + ... + F (n - 1)\<close> of the
  first \<open>n\<close> Fibonacci numbers; it is \<open>F (n + 1) - 1\<close> for \<open>n \<ge> 1\<close> and \<open>0\<close> for \<open>n = 0\<close>.
\<close>

theorem sum_first_n_fibonacci_correct:
  "0 \<le> n \<Longrightarrow>
     sum_first_n_fibonacci n = (\<Sum>j<nat n. F j)
     \<and> (1 \<le> n \<longrightarrow> sum_first_n_fibonacci n = F (nat n + 1) - 1)
     \<and> (n = 0 \<longrightarrow> sum_first_n_fibonacci n = 0)"
proof -
  assume "0 \<le> n"
  then have n: "n = int (nat n)" by simp
  have s: "sum_first_n_fibonacci n = (\<Sum>j<nat n. F j)"
    using sum_first_n_fibonacci_nat [of "nat n"] n by simp
  have c: "1 \<le> n \<longrightarrow> sum_first_n_fibonacci n = F (nat n + 1) - 1"
    using s by (simp add: sum_F_closed)
  have z: "n = 0 \<longrightarrow> sum_first_n_fibonacci n = 0"
    by (simp add: sum_first_n_fibonacci_def)
  from s c z show ?thesis by blast
qed

theorem sum_first_n_fibonacci_correct_witness:
  "(0::int) \<le> 10 \<and> sum_first_n_fibonacci 10 = 88 \<and> (\<Sum>j<nat 10. F j) = 88
     \<and> F (nat 10 + 1) - 1 = 88"
proof -
  have v: "sum_first_n_fibonacci 10 = 88"
    by (simp add: sum_first_n_fibonacci_def eval_nat_numeral)
  from sum_first_n_fibonacci_correct [of 10] v show ?thesis by simp
qed

subsection \<open>Recursive linear search\<close>

lemma recursive_search_end:
  "length lst \<le> i \<Longrightarrow> recursive_search (Suc frames) lst target (int i) = Inr (- 1)"
  by (simp add: recursive_search.simps(2))

lemma recursive_search_step:
  "i < length lst \<Longrightarrow>
     recursive_search (Suc frames) lst target (int i) =
       (if lst ! i = target then Inr (int i)
        else recursive_search frames lst target (int (Suc i)))"
  by (simp add: recursive_search.simps(2) getitem_def add.commute)

lemma recursive_search_unfold:
  "0 < frames \<Longrightarrow>
     recursive_search frames lst target index =
       (if index \<ge> int (length lst) then Inr (- 1)
        else (case getitem lst index of
                Inl e \<Rightarrow> Inl e
              | Inr x \<Rightarrow> if x = target then Inr index
                         else recursive_search (frames - 1) lst target (index + 1)))"
proof -
  assume "0 < frames"
  then obtain f where f: "frames = Suc f" by (cases frames) simp_all
  show ?thesis unfolding f diff_Suc_1 by (rule recursive_search.simps(2))
qed

lemma recursive_search_miss:
  "(\<And>j. i \<le> j \<Longrightarrow> j < length lst \<Longrightarrow> lst ! j \<noteq> target) \<Longrightarrow> i \<le> length lst \<Longrightarrow>
     recursive_search frames lst target (int i) =
       (if length lst - i < frames then Inr (- 1) else Inl RecursionError)"
proof (induction frames arbitrary: i)
  case 0
  show ?case by simp
next
  case (Suc frames)
  show ?case
  proof (cases "i < length lst")
    case False
    with Suc.prems(2) have "length lst \<le> i" by simp
    then show ?thesis by (simp add: recursive_search_end)
  next
    case True
    have "recursive_search frames lst target (int (Suc i)) =
        (if length lst - Suc i < frames then Inr (- 1) else Inl RecursionError)"
      using Suc.prems(1) True by (intro Suc.IH) simp_all
    moreover have "lst ! i \<noteq> target"
      using Suc.prems(1) [of i] True by simp
    moreover have "length lst - Suc i < frames \<longleftrightarrow> length lst - i < Suc frames"
      using True by linarith
    ultimately show ?thesis
      using True by (simp only: recursive_search_step if_False)
  qed
qed

lemma recursive_search_hit:
  "i \<le> k \<Longrightarrow> k < length lst \<Longrightarrow> lst ! k = target \<Longrightarrow>
     (\<And>j. i \<le> j \<Longrightarrow> j < k \<Longrightarrow> lst ! j \<noteq> target) \<Longrightarrow>
     recursive_search frames lst target (int i) =
       (if k - i < frames then Inr (int k) else Inl RecursionError)"
proof (induction frames arbitrary: i)
  case 0
  show ?case by simp
next
  case (Suc frames)
  from Suc.prems(1,2) have i: "i < length lst" by simp
  show ?case
  proof (cases "i = k")
    case True
    with Suc.prems(3) i show ?thesis by (simp add: recursive_search_step)
  next
    case False
    with Suc.prems(1) have ik: "i < k" by simp
    have "recursive_search frames lst target (int (Suc i)) =
        (if k - Suc i < frames then Inr (int k) else Inl RecursionError)"
      using ik Suc.prems by (intro Suc.IH) simp_all
    moreover have "lst ! i \<noteq> target"
      using ik Suc.prems(4) [of i] by simp
    moreover have "k - Suc i < frames \<longleftrightarrow> k - i < Suc frames"
      using ik by linarith
    ultimately show ?thesis
      using i by (simp only: recursive_search_step if_False)
  qed
qed

lemma first_occurrence:
  "target \<in> set lst \<Longrightarrow> \<exists>k<length lst. lst ! k = target \<and> (\<forall>j<k. lst ! j \<noteq> target)"
proof -
  assume "target \<in> set lst"
  then obtain m where m: "m < length lst \<and> lst ! m = target"
    by (auto simp: in_set_conv_nth)
  define k where "k = (LEAST m. m < length lst \<and> lst ! m = target)"
  have k: "k < length lst \<and> lst ! k = target"
    unfolding k_def using m by (rule LeastI)
  have "\<forall>j<k. lst ! j \<noteq> target"
  proof (intro allI impI notI)
    fix j assume j: "j < k" and t: "lst ! j = target"
    from j k have "j < length lst \<and> lst ! j = target" using t by simp
    then have "k \<le> j" unfolding k_def by (rule Least_le)
    with j show False by simp
  qed
  with k show ?thesis by blast
qed

text \<open>
  C9, as stated: for every list and target, \<open>recursive_search\<close> returns \<open>-1\<close> when the target
  does not occur. On a list of 1000 zeros and the target 1 the search needs 1001 nested
  calls, one for each index from 0 to 1000; the interpreter accepts at most 1000 frames, so
  even with all of them free the last call raises RecursionError.
\<close>

theorem recursive_search_counterexample:
  "(1 :: int) \<notin> set (replicate 1000 0)
   \<and> recursive_search 1000 (replicate 1000 0) 1 0 = Inl RecursionError"
proof -
  have "recursive_search 1000 (replicate 1000 0) 1 (int 0) =
      (if length (replicate 1000 (0 :: int)) - 0 < 1000 then Inr (- 1) else Inl RecursionError)"
    by (rule recursive_search_miss) simp_all
  then show ?thesis by simp
qed

text \<open>
  C9, amended. Called with the default starting index 0 where the interpreter still accepts
  \<open>frames\<close> nested calls: when the target occurs in the list, first at index \<open>i\<close>,
  \<open>recursive_search\<close> returns \<open>i\<close> if \<open>i < frames\<close> and raises RecursionError otherwise; when
  it does not occur, \<open>recursive_search\<close> returns \<open>-1\<close> if \<open>len(lst) < frames\<close> and raises
  RecursionError otherwise. So the search of a list shorter than \<open>frames\<close> never raises: the
  index rises by one at each call towards the length of the list, and at most
  \<open>len(lst) + 1\<close> calls are made.
\<close>

theorem recursive_search_amended:
  "(target \<in> set lst \<longrightarrow>
      (\<exists>i<length lst. lst ! i = target \<and> (\<forall>j<i. lst ! j \<noteq> target)
          \<and> recursive_search frames lst target 0 =
              (if i < frames then Inr (int i) else Inl RecursionError)))
   \<and> (target \<notin> set lst \<longrightarrow>
        recursive_search frames lst target 0 =
          (if length lst < frames then Inr (- 1) else Inl RecursionError))
   \<and> (length lst < frames \<longrightarrow> recursive_search frames lst target 0 \<noteq> Inl RecursionError)"
proof -
  have hit: "\<exists>i<length lst. lst ! i = target \<and> (\<forall>j<i. lst ! j \<noteq> target)
      \<and> recursive_search frames lst target 0 =
          (if i < frames then Inr (int i) else Inl RecursionError)"
    if t: "target \<in> set lst"
  proof -
    from first_occurrence [OF t]
    obtain k where k: "k < length lst" "lst ! k = target" "\<forall>j<k. lst ! j \<noteq> target"
      by blast
    have "recursive_search frames lst target (int 0) =
        (if k - 0 < frames then Inr (int k) else Inl RecursionError)"
    proof (rule recursive_search_hit)
      show "0 \<le> k" by simp
      show "k < length lst" by (rule k(1))
      show "lst ! k = target" by (rule k(2))
      show "\<And>j. 0 \<le> j \<Longrightarrow> j < k \<Longrightarrow> lst ! j \<noteq> target" using k(3) by simp
    qed
    then have "recursive_search frames lst target 0 =
        (if k < frames then Inr (int k) else Inl RecursionError)"
      by simp
    with k show ?thesis by (intro exI [of _ k]) simp
  qed
  have miss: "recursive_search frames lst target 0 =
      (if length lst < frames then Inr (- 1) else Inl RecursionError)"
    if t: "target \<notin> set lst"
  proof -
    have "recursive_search frames lst target (int 0) =
        (if length lst - 0 < frames then Inr (- 1) else Inl RecursionError)"
    proof (rule recursive_search_miss)
      fix j assume "j < length lst"
      with t show "lst ! j \<noteq> target" by (auto simp: in_set_conv_nth)
    qed simp
    then show ?thesis by simp
  qed
  have never: "recursive_search frames lst target 0 \<noteq> Inl RecursionError"
    if l: "length lst < frames"
  proof (cases "target \<in> set lst")
    case True
    from hit [OF True] obtain i where "i < length lst"
      and "recursive_search frames lst target 0 =
          (if i < frames then Inr (int i) else Inl RecursionError)"
      by blast
    with l show ?thesis by simp
  next
    case False
    from miss [OF False] l show ?thesis by simp
  qed
  show ?thesis
  proof (intro conjI impI)
    assume "target \<in> set lst"
    then show "\<exists>i<length lst. lst ! i = target \<and> (\<forall>j<i. lst ! j \<noteq> target)
        \<and> recursive_search frames lst target 0 =
            (if i < frames then Inr (int i) else Inl RecursionError)"
      by (rule hit)
  next
    assume "target \<notin> set lst"
    then show "recursive_search frames lst target 0 =
        (if length lst < frames then Inr (- 1) else Inl RecursionError)"
      by (rule miss)
  next
    assume "length lst < frames"
    then show "recursive_search frames lst target 0 \<noteq> Inl RecursionError"
      by (rule never)
  qed
qed

theorem recursive_search_amended_witness:
  "(4 :: int) \<notin> set [3, 5, 7, 9, 11, 13]
   \<and> recursive_search 998 [3, 5, 7, 9, 11, 13] 4 0 = Inr (- 1)
   \<and> recursive_search 6 [3, 5, 7, 9, 11, 13] 4 0 = Inl RecursionError
   \<and> (9 :: int) \<in> set [3, 5, 7, 9, 11, 13]
   \<and> recursive_search 998 [3, 5, 7, 9, 11, 13] 9 0 = Inr 3
   \<and> recursive_search 3 [3, 5, 7, 9, 11, 13] 9 0 = Inl RecursionError"
proof -
  let ?lst = "[3, 5, 7, 9, 11, 13 :: int]"
  have n: "(4 :: int) \<notin> set ?lst" by simp
  have y: "(9 :: int) \<in> set ?lst" by simp
  from recursive_search_amended [of 4 ?lst 998] n
  have a: "recursive_search 998 ?lst 4 0 = Inr (- 1)" by simp
  from recursive_search_amended [of 4 ?lst 6] n
  have b: "recursive_search 6 ?lst 4 0 = Inl RecursionError" by simp
  have c: "recursive_search 998 ?lst 9 0 = Inr 3"
    by (simp add: recursive_search_unfold getitem_def)
  have d: "recursive_search 3 ?lst 9 0 = Inl RecursionError"
    by (simp add: recursive_search_unfold getitem_def)
  from n a b y c d show ?thesis by blast
qed

subsection \<open>The frequency table\<close>

lemma fold_extend:
  "fold (\<lambda>line flat. flat @ g line) rows acc = acc @ concat (map g rows)"
  by (induction rows arbitrary: acc) simp_all

lemma flatten_colors_concat:
  "flatten_colors rows = map normalize_color (concat (map parts rows))"
  by (simp add: flatten_colors_def fold_extend map_concat comp_def)

lemma map_of_counter_incr:
  "map_of (counter_incr k kvs) = (map_of kvs)(k \<mapsto> dict_get kvs k 0 + 1)"
  by (induction kvs) (auto simp: dict_get_def fun_eq_iff)

lemma keys_counter_incr: "fst ` set (counter_incr k kvs) = insert k (fst ` set kvs)"
  by (induction k kvs rule: counter_incr.induct) (simp_all add: insert_commute)

lemma distinct_counter_incr:
  "distinct (map fst kvs) \<Longrightarrow> distinct (map fst (counter_incr k kvs))"
proof (induction kvs)
  case Nil
  show ?case by simp
next
  case (Cons kv kvs)
  obtain k' v where kv: "kv = (k', v)" by (cases kv)
  from Cons.prems kv have k': "k' \<notin> fst ` set kvs" and d: "distinct (map fst kvs)"
    by simp_all
  show ?case
  proof (cases "k = k'")
    case True
    with kv Cons.prems show ?thesis by simp
  next
    case False
    with k' have "k' \<notin> fst ` set (counter_incr k kvs)"
      by (simp add: keys_counter_incr)
    with False kv Cons.IH [OF d] show ?thesis by simp
  qed
qed

lemma dict_get_counter_incr:
  "dict_get (counter_incr k kvs) c 0 = dict_get kvs c 0 + (if c = k then 1 else 0)"
  by (simp add: dict_get_def map_of_counter_incr)

lemma dict_get_fold_counter_incr:
  "dict_get (fold counter_incr xs acc) c 0 = dict_get acc c 0 + int (count_list xs c)"
  by (induction xs arbitrary: acc) (simp_all add: dict_get_counter_incr)

lemma keys_fold_counter_incr:
  "fst ` set (fold counter_incr xs acc) = fst ` set acc \<union> set xs"
  by (induction xs arbitrary: acc) (simp_all add: keys_counter_incr)

lemma distinct_fold_counter_incr:
  "distinct (map fst acc) \<Longrightarrow> distinct (map fst (fold counter_incr xs acc))"
  by (induction xs arbitrary: acc) (simp_all add: distinct_counter_incr)

lemma dict_get_Nil: "dict_get [] c d = d"
  by (simp add: dict_get_def)

lemma Counter_get: "dict_get (Counter xs) c 0 = int (count_list xs c)"
  by (simp add: Counter_def dict_get_fold_counter_incr dict_get_Nil)

lemma Counter_keys: "fst ` set (Counter xs) = set xs"
  by (simp add: Counter_def keys_fold_counter_incr)

lemma Counter_distinct: "distinct (map fst (Counter xs))"
  by (simp add: Counter_def distinct_fold_counter_incr)

lemma count_list_map_filter:
  "count_list (map f xs) c = length (filter (\<lambda>p. f p = c) xs)"
  by (induction xs) simp_all


lemma comma_not_space: "\<not> is_space (CHR '','')"
  by (simp add: is_space_def)

lemma split_commas_not_Nil: "split_commas s \<noteq> []"
  by (induction s) (simp_all split: list.splits)

lemma split_commas_first_comma:
  "split_commas s =
     (case dropWhile (\<lambda>c. c \<noteq> CHR '','') s of
        [] \<Rightarrow> [s]
      | comma # rest \<Rightarrow> takeWhile (\<lambda>c. c \<noteq> CHR '','') s # split_commas rest)"
proof (induction s)
  case Nil
  show ?case by simp
next
  case (Cons c cs)
  show ?case
  proof (cases "c = CHR '',''")
    case True
    then show ?thesis by simp
  next
    case False
    show ?thesis
    proof (cases "dropWhile (\<lambda>c. c \<noteq> CHR '','') cs")
      case Nil
      with Cons.IH have "split_commas cs = [cs]" by (simp only: list.case)
      with False Nil show ?thesis by (simp del: dropWhile_eq_Nil_conv)
    next
      case (Cons comma rest)
      with Cons.IH
      have "split_commas cs = takeWhile (\<lambda>c. c \<noteq> CHR '','') cs # split_commas rest"
        by (simp only: list.case)
      with False Cons show ?thesis by simp
    qed
  qed
qed

lemma split_commas_dropWhile_space:
  "split_commas (dropWhile is_space cs) =
     (case split_commas cs of [] \<Rightarrow> [] | f # fs \<Rightarrow> dropWhile is_space f # fs)"
proof (induction cs)
  case Nil
  show ?case by simp
next
  case (Cons c cs)
  show ?case
  proof (cases "is_space c")
    case True
    then have "c \<noteq> CHR '',''" using comma_not_space by auto
    with True Cons split_commas_not_Nil [of cs] show ?thesis
      by (simp split: list.splits)
  next
    case False
    with split_commas_not_Nil [of cs] show ?thesis
      by (simp split: list.splits)
  qed
qed

lemma re_split_split_commas:
  "re_split s = (case split_commas s of [] \<Rightarrow> [] | f # fs \<Rightarrow> f # map (dropWhile is_space) fs)"
proof (induction s rule: re_split.induct)
  case (1 s)
  show ?case
  proof (cases "dropWhile (\<lambda>c. c \<noteq> CHR '','') s")
    case Nil
    have "re_split s = [s]"
      by (subst re_split.simps) (simp only: Nil list.case)
    moreover have "split_commas s = [s]"
      by (subst split_commas_first_comma) (simp only: Nil list.case)
    ultimately show ?thesis by simp
  next
    case (Cons comma rest)
    have "re_split (dropWhile is_space rest) = map (dropWhile is_space) (split_commas rest)"
      using "1.IH" [OF Cons] split_commas_not_Nil [of rest]
      by (simp add: split_commas_dropWhile_space split: list.splits)
    moreover have "re_split s =
        takeWhile (\<lambda>c. c \<noteq> CHR '','') s # re_split (dropWhile is_space rest)"
      by (subst re_split.simps) (simp only: Cons list.case)
    moreover have "split_commas s = takeWhile (\<lambda>c. c \<noteq> CHR '','') s # split_commas rest"
      by (subst split_commas_first_comma) (simp only: Cons list.case)
    ultimately show ?thesis by simp
  qed
qed

lemma py_strip_dropWhile: "py_strip (dropWhile is_space f) = py_strip f"
  by (simp add: py_strip_def)

lemma map_py_strip_re_split: "map py_strip (re_split s) = map py_strip (split_commas s)"
  using split_commas_not_Nil [of s]
  by (simp add: re_split_split_commas py_strip_dropWhile comp_def split: list.splits)

lemma parts_spec: "parts line = filter (\<lambda>p. p \<noteq> []) (map py_strip (split_commas line))"
proof -
  have "parts line = filter (\<lambda>p. p \<noteq> []) (map py_strip (re_split line))"
    by (simp add: parts_def filter_map comp_def)
  then show ?thesis by (simp add: map_py_strip_re_split)
qed

lemma fragments_spec: "concat (map parts rows) = spec_fragments rows"
  by (induction rows) (simp_all add: spec_fragments_def parts_spec)

text \<open>
  C1. The frequency table \<open>Counter (flatten_colors rows)\<close> maps each normalized color name
  to the number of fragments, over all rows, whose normalization it is, and holds no other
  key; no key occurs twice. The fragments the code normalizes (\<open>parts\<close> of each row) are the
  claim's: each row split at its commas, each piece stripped, the empty ones discarded.
\<close>

theorem frequency_table_counts:
  "dict_get (Counter (flatten_colors rows)) C 0 =
     int (length (filter (\<lambda>p. normalize_color p = C) (concat (map parts rows))))
   \<and> (C \<in> fst ` set (Counter (flatten_colors rows)) \<longleftrightarrow>
        (\<exists>p \<in> set (concat (map parts rows)). normalize_color p = C))
   \<and> distinct (map fst (Counter (flatten_colors rows)))
   \<and> concat (map parts rows) = spec_fragments rows"
proof (intro conjI)
  show "dict_get (Counter (flatten_colors rows)) C 0 =
     int (length (filter (\<lambda>p. normalize_color p = C) (concat (map parts rows))))"
    by (simp only: Counter_get flatten_colors_concat count_list_map_filter)
  show "C \<in> fst ` set (Counter (flatten_colors rows)) \<longleftrightarrow>
        (\<exists>p \<in> set (concat (map parts rows)). normalize_color p = C)"
    unfolding Counter_keys flatten_colors_concat by auto
  show "distinct (map fst (Counter (flatten_colors rows)))"
    by (rule Counter_distinct)
  show "concat (map parts rows) = spec_fragments rows"
    by (rule fragments_spec)
qed

theorem frequency_table_counts_witness:
  "dict_get (Counter (flatten_colors [''red, blew,BLUE '', '' , Blu ,red,,''])) ''BLUE'' 0 = 3
   \<and> spec_fragments [''red, blew,BLUE '', '' , Blu ,red,,'']
       = [''red'', ''blew'', ''BLUE'', ''Blu'', ''red'']
   \<and> ''BLUE'' \<in> fst ` set (Counter (flatten_colors [''red, blew,BLUE '', '' , Blu ,red,,'']))
   \<and> Counter (flatten_colors [''red, blew,BLUE '', '' , Blu ,red,,''])
       = [(''RED'', 2), (''BLUE'', 3)]"
proof -
  have f: "spec_fragments [''red, blew,BLUE '', '' , Blu ,red,,'']
      = [''red'', ''blew'', ''BLUE'', ''Blu'', ''red'']"
    by code_simp
  have n: "int (length (filter (\<lambda>p. normalize_color p = ''BLUE'')
      [''red'', ''blew'', ''BLUE'', ''Blu'', ''red''])) = 3"
    by code_simp
  have c: "Counter (flatten_colors [''red, blew,BLUE '', '' , Blu ,red,,''])
      = [(''RED'', 2), (''BLUE'', 3)]"
    by code_simp
  note t = frequency_table_counts [of "[''red, blew,BLUE '', '' , Blu ,red,,'']" "''BLUE''"]
  from t have p: "concat (map parts [''red, blew,BLUE '', '' , Blu ,red,,''])
      = spec_fragments [''red, blew,BLUE '', '' , Blu ,red,,'']"
    by blast
  from t have "dict_get (Counter (flatten_colors [''red, blew,BLUE '', '' , Blu ,red,,''])) ''BLUE'' 0
      = int (length (filter (\<lambda>p. normalize_color p = ''BLUE'')
          (concat (map parts [''red, blew,BLUE '', '' , Blu ,red,,'']))))"
    by blast
  then have g: "dict_get (Counter (flatten_colors [''red, blew,BLUE '', '' , Blu ,red,,''])) ''BLUE'' 0 = 3"
    by (simp only: p f n)
  have k: "''BLUE'' \<in> fst ` set (Counter (flatten_colors [''red, blew,BLUE '', '' , Blu ,red,,'']))"
    unfolding c by simp
  from g f k c show ?thesis by blast
qed

subsection \<open>Mode and variance\<close>

lemma fold_max_Max:
  "fold (\<lambda>x m. if m < x then x else m) vs (v :: int) = Max (insert v (set vs))"
proof (induction vs arbitrary: v)
  case Nil
  show ?case by simp
next
  case (Cons x vs)
  have "fold (\<lambda>x m. if m < x then x else m) (x # vs) v =
      Max (insert (if v < x then x else v) (set vs))"
    by (simp add: Cons.IH)
  also have "(if v < x then x else v) = max v x" by (simp add: max_def)
  also have "Max (insert (max v x) (set vs)) = Max (insert v (insert x (set vs)))"
    by (cases "set vs = {}") (simp_all add: max.assoc)
  finally show ?case by simp
qed

lemma py_max_Max: "vals \<noteq> [] \<Longrightarrow> py_max vals = Inr (Max (set vals))"
  by (cases vals) (simp_all add: py_max_def fold_max_Max)

lemma mode_colors_nonempty:
  "freq \<noteq> [] \<Longrightarrow>
     mode_colors freq =
       Inr (map fst (filter (\<lambda>kv. snd kv = Max (snd ` set freq)) freq), Max (snd ` set freq))"
  by (simp add: mode_colors_def py_max_Max case_prod_unfold)

lemma distinct_map_fst_filter:
  "distinct (map fst freq) \<Longrightarrow> distinct (map fst (filter P freq))"
  by (induction freq) auto

lemma set_map_fst_filter_snd:
  "distinct (map fst freq) \<Longrightarrow>
     set (map fst (filter (\<lambda>kv. snd kv = m) freq)) = {c. map_of freq c = Some m}"
proof -
  assume d: "distinct (map fst freq)"
  have "c \<in> set (map fst (filter (\<lambda>kv. snd kv = m) freq)) \<longleftrightarrow> map_of freq c = Some m" for c
  proof
    assume "c \<in> set (map fst (filter (\<lambda>kv. snd kv = m) freq))"
    then have "(c, m) \<in> set freq" by auto
    with d show "map_of freq c = Some m" by simp
  next
    assume "map_of freq c = Some m"
    then have "(c, m) \<in> set freq" by (rule map_of_SomeD)
    then show "c \<in> set (map fst (filter (\<lambda>kv. snd kv = m) freq))" by force
  qed
  then show ?thesis by blast
qed

text \<open>
  C3. For a non-empty frequency table, \<open>mode_colors\<close> returns the colors whose count is the
  largest count in the table, in the order of the table, paired with that count; the table
  holding each color once, these are exactly the colors that the table maps to the largest
  count, each listed once. For the empty table it returns \<open>([], 0)\<close>. It never raises.
\<close>

theorem mode_colors_correct:
  "mode_colors ([] :: ('a \<times> int) list) = Inr ([], 0)
   \<and> (freq \<noteq> [] \<longrightarrow>
        mode_colors freq =
          Inr (map fst (filter (\<lambda>kv. snd kv = Max (snd ` set freq)) freq), Max (snd ` set freq))
        \<and> (distinct (map fst freq) \<longrightarrow>
             distinct (map fst (filter (\<lambda>kv. snd kv = Max (snd ` set freq)) freq))
             \<and> set (map fst (filter (\<lambda>kv. snd kv = Max (snd ` set freq)) freq))
                 = {c. map_of freq c = Some (Max (snd ` set freq))}))"
proof (intro conjI impI)
  show "mode_colors ([] :: ('a \<times> int) list) = Inr ([], 0)"
    by (simp add: mode_colors_def)
next
  assume "freq \<noteq> []"
  then show "mode_colors freq =
      Inr (map fst (filter (\<lambda>kv. snd kv = Max (snd ` set freq)) freq), Max (snd ` set freq))"
    by (rule mode_colors_nonempty)
next
  assume "distinct (map fst freq)"
  then show "distinct (map fst (filter (\<lambda>kv. snd kv = Max (snd ` set freq)) freq))"
    by (rule distinct_map_fst_filter)
next
  assume "distinct (map fst freq)"
  then show "set (map fst (filter (\<lambda>kv. snd kv = Max (snd ` set freq)) freq))
      = {c. map_of freq c = Some (Max (snd ` set freq))}"
    by (rule set_map_fst_filter_snd)
qed


theorem mode_colors_correct_witness:
  "mode_colors [(''RED'', 2), (''BLUE'', 3), (''PINK'', 3)] = Inr ([''BLUE'', ''PINK''], 3)
   \<and> [(''RED'', 2 :: int), (''BLUE'', 3), (''PINK'', 3)] \<noteq> []
   \<and> distinct (map fst [(''RED'', 2 :: int), (''BLUE'', 3), (''PINK'', 3)])
   \<and> {c. map_of [(''RED'', 2 :: int), (''BLUE'', 3), (''PINK'', 3)] c = Some 3}
       = {''BLUE'', ''PINK''}"
proof -
  let ?freq = "[(''RED'', 2 :: int), (''BLUE'', 3), (''PINK'', 3)]"
  have m: "Max (snd ` set ?freq) = 3" by simp
  have d: "distinct (map fst ?freq)" by simp
  have n: "?freq \<noteq> []" by simp
  note t = mode_colors_correct [of ?freq]
  from t n have "mode_colors ?freq =
      Inr (map fst (filter (\<lambda>kv. snd kv = Max (snd ` set ?freq)) ?freq), Max (snd ` set ?freq))"
    by blast
  then have a: "mode_colors ?freq = Inr ([''BLUE'', ''PINK''], 3)"
    unfolding m by simp
  from t n d have "set (map fst (filter (\<lambda>kv. snd kv = Max (snd ` set ?freq)) ?freq))
       = {c. map_of ?freq c = Some (Max (snd ` set ?freq))}"
    by blast
  then have "set (map fst (filter (\<lambda>kv. snd kv = 3) ?freq)) = {c. map_of ?freq c = Some 3}"
    unfolding m .
  then have b: "{c. map_of ?freq c = Some 3} = {''BLUE'', ''PINK''}"
    by simp
  from a b d n show ?thesis by blast
qed

lemma sum_list_values:
  "distinct (map fst freq) \<Longrightarrow>
     sum_list (map (\<lambda>kv. g (snd kv)) freq) = (\<Sum>c \<in> dom (map_of freq). g (the (map_of freq c)))"
proof (induction freq)
  case Nil
  show ?case by simp
next
  case (Cons kv freq)
  obtain k v where kv: "kv = (k, v)" by (cases kv)
  from Cons.prems kv have k: "k \<notin> dom (map_of freq)" and d: "distinct (map fst freq)"
    by (simp_all add: dom_map_of_conv_image_fst)
  have fin: "finite (dom (map_of freq))" by (rule finite_dom_map_of)
  have same: "(\<Sum>c \<in> dom (map_of freq). g (the (map_of (kv # freq) c)))
      = (\<Sum>c \<in> dom (map_of freq). g (the (map_of freq c)))"
  proof (rule sum.cong)
    fix c assume "c \<in> dom (map_of freq)"
    with k have "c \<noteq> k" by blast
    then show "g (the (map_of (kv # freq) c)) = g (the (map_of freq c))"
      by (simp add: kv)
  qed simp
  have "dom (map_of (kv # freq)) = insert k (dom (map_of freq))"
    by (simp add: kv)
  then have "(\<Sum>c \<in> dom (map_of (kv # freq)). g (the (map_of (kv # freq) c)))
      = g (the (map_of (kv # freq) k))
        + (\<Sum>c \<in> dom (map_of freq). g (the (map_of (kv # freq) c)))"
    using fin k by simp
  also have "\<dots> = g v + (\<Sum>c \<in> dom (map_of freq). g (the (map_of freq c)))"
  proof -
    have "the (map_of (kv # freq) k) = v" by (simp add: kv)
    then show ?thesis by (simp only: same)
  qed
  also have "\<dots> = sum_list (map (\<lambda>kv. g (snd kv)) (kv # freq))"
    by (simp add: Cons.IH [OF d] kv)
  finally have r: "(\<Sum>c \<in> dom (map_of (kv # freq)). g (the (map_of (kv # freq) c)))
      = sum_list (map (\<lambda>kv. g (snd kv)) (kv # freq))" .
  show ?case by (rule r [symmetric])
qed

lemma card_dom_map_of: "distinct (map fst freq) \<Longrightarrow> card (dom (map_of freq)) = length freq"
proof -
  assume d: "distinct (map fst freq)"
  have "card (dom (map_of freq)) = card (set (map fst freq))"
    by (simp add: dom_map_of_conv_image_fst)
  also have "\<dots> = length (map fst freq)" using d by (rule distinct_card)
  finally show ?thesis by simp
qed

lemma mean_of_values:
  assumes "distinct (map fst freq)"
  shows "of_int (sum_list (map snd freq)) / of_nat (length freq) = spec_mean (map_of freq)"
proof -
  have "(of_int (sum_list (map snd freq)) :: rat) = sum_list (map (\<lambda>kv. of_int (snd kv)) freq)"
    by (induction freq) simp_all
  also have "\<dots> = (\<Sum>c \<in> dom (map_of freq). of_int (the (map_of freq c)))"
    using assms by (rule sum_list_values)
  finally show ?thesis
    by (simp add: spec_mean_def card_dom_map_of [OF assms])
qed

lemma variance_of_values:
  assumes "distinct (map fst freq)" and "freq \<noteq> []"
  shows "variance_of_frequencies freq = Inr (spec_variance (map_of freq))"
proof -
  from assms(2) have n: "(of_nat (length freq) :: rat) \<noteq> 0" by simp
  have "sum_list (map (\<lambda>x. (of_int x - spec_mean (map_of freq)) ^ 2) (map snd freq))
      = sum_list (map (\<lambda>kv. (of_int (snd kv) - spec_mean (map_of freq)) ^ 2) freq)"
    by (simp add: comp_def)
  also have "\<dots> = (\<Sum>c \<in> dom (map_of freq).
      (of_int (the (map_of freq c)) - spec_mean (map_of freq)) ^ 2)"
    using assms(1) by (rule sum_list_values)
  finally have s: "sum_list (map (\<lambda>x. (of_int x - spec_mean (map_of freq)) ^ 2) (map snd freq))
      = (\<Sum>c \<in> dom (map_of freq). (of_int (the (map_of freq c)) - spec_mean (map_of freq)) ^ 2)" .
  show ?thesis
    using assms(2) n
    by (simp add: variance_of_frequencies_def truediv_def Let_def
        mean_of_values [OF assms(1)] s spec_variance_def card_dom_map_of [OF assms(1)]
        del: map_map)
qed

text \<open>
  C4. For a non-empty frequency table (each color held once), \<open>variance_of_frequencies\<close>
  returns the population variance of the per-color counts, in exact rational arithmetic;
  for the empty table it returns 0. It never raises.
\<close>

theorem variance_of_frequencies_correct:
  "variance_of_frequencies ([] :: ('a \<times> int) list) = Inr 0
   \<and> (freq \<noteq> [] \<and> distinct (map fst freq) \<longrightarrow>
        variance_of_frequencies freq = Inr (spec_variance (map_of freq)))"
  by (simp add: variance_of_values) (simp add: variance_of_frequencies_def)

theorem variance_of_frequencies_correct_witness:
  "[(''RED'', 2 :: int), (''BLUE'', 3), (''PINK'', 4)] \<noteq> []
   \<and> distinct (map fst [(''RED'', 2 :: int), (''BLUE'', 3), (''PINK'', 4)])
   \<and> variance_of_frequencies [(''RED'', 2), (''BLUE'', 3), (''PINK'', 4)] = Inr (2 / 3)
   \<and> spec_variance (map_of [(''RED'', 2), (''BLUE'', 3), (''PINK'', 4)]) = 2 / 3"
proof -
  let ?freq = "[(''RED'', 2 :: int), (''BLUE'', 3), (''PINK'', 4)]"
  have v: "variance_of_frequencies ?freq = Inr (2 / 3)"
    by (simp add: variance_of_frequencies_def truediv_def Let_def power2_eq_square)
  have d: "distinct (map fst ?freq)" by simp
  have n: "?freq \<noteq> []" by simp
  from variance_of_frequencies_correct [of ?freq] n d
  have "variance_of_frequencies ?freq = Inr (spec_variance (map_of ?freq))"
    by blast
  with v have "Inr (spec_variance (map_of ?freq)) = (Inr (2 / 3) :: py_error + rat)"
    by (simp only:)
  then have "spec_variance (map_of ?freq) = 2 / 3"
    by (simp only: sum.inject)
  with v d n show ?thesis by blast
qed

subsection \<open>Probability of RED\<close>

lemma sum_values_counter_incr:
  "sum_list (map snd (counter_incr k kvs)) = sum_list (map snd kvs) + 1"
  by (induction k kvs rule: counter_incr.induct) simp_all

lemma sum_values_fold_counter_incr:
  "sum_list (map snd (fold counter_incr xs acc)) = sum_list (map snd acc) + int (length xs)"
  by (induction xs arbitrary: acc) (simp_all add: sum_values_counter_incr)

lemma Counter_total: "sum_list (map snd (Counter xs)) = int (length xs)"
  by (simp add: Counter_def sum_values_fold_counter_incr)

lemma prob_red_Counter:
  "prob_red (Counter flat) =
     Inr (if length flat = 0 then 0
          else of_nat (count_list flat ''RED'') / of_nat (length flat))"
  by (simp add: prob_red_def Let_def Counter_total Counter_get truediv_def)

text \<open>
  C5. When \<open>main\<close> has rows to work on, the probability it reports for RED is the count of
  \<open>RED\<close> in the frequency table (0 when absent) over the sum of all counts, and 0 when that
  sum is zero. The sum of all counts is the number of observations, and the count of \<open>RED\<close>
  the number of observations that are \<open>RED\<close>, so the probability lies between 0 and 1.
\<close>

theorem prob_red_correct:
  "rows \<noteq> [] \<longrightarrow>
     (\<exists>p. main_prob_red rows = Some (Inr p)
        \<and> p = (if sum_list (map snd (Counter (flatten_colors rows))) = 0 then 0
               else of_int (dict_get (Counter (flatten_colors rows)) ''RED'' 0)
                    / of_int (sum_list (map snd (Counter (flatten_colors rows)))))
        \<and> sum_list (map snd (Counter (flatten_colors rows))) = int (length (flatten_colors rows))
        \<and> dict_get (Counter (flatten_colors rows)) ''RED'' 0
            = int (count_list (flatten_colors rows) ''RED'')
        \<and> 0 \<le> p \<and> p \<le> 1)"
proof
  assume rows: "rows \<noteq> []"
  let ?flat = "flatten_colors rows"
  let ?p = "(if length ?flat = 0 then 0
             else of_nat (count_list ?flat ''RED'') / of_nat (length ?flat)) :: rat"
  have m: "main_prob_red rows = Some (Inr ?p)"
    using rows by (simp add: main_prob_red_def prob_red_Counter)
  have e: "?p = (if sum_list (map snd (Counter ?flat)) = 0 then 0
               else of_int (dict_get (Counter ?flat) ''RED'' 0)
                    / of_int (sum_list (map snd (Counter ?flat))))"
    by (simp add: Counter_total Counter_get)
  have t: "sum_list (map snd (Counter ?flat)) = int (length ?flat)"
    by (rule Counter_total)
  have g: "dict_get (Counter ?flat) ''RED'' 0 = int (count_list ?flat ''RED'')"
    by (rule Counter_get)
  have lo: "0 \<le> ?p" by simp
  have "count_list ?flat ''RED'' \<le> length ?flat" by (rule count_le_length)
  then have hi: "?p \<le> 1" by (simp add: divide_le_eq_1)
  from m e t g lo hi show "\<exists>p. main_prob_red rows = Some (Inr p)
        \<and> p = (if sum_list (map snd (Counter (flatten_colors rows))) = 0 then 0
               else of_int (dict_get (Counter (flatten_colors rows)) ''RED'' 0)
                    / of_int (sum_list (map snd (Counter (flatten_colors rows)))))
        \<and> sum_list (map snd (Counter (flatten_colors rows))) = int (length (flatten_colors rows))
        \<and> dict_get (Counter (flatten_colors rows)) ''RED'' 0
            = int (count_list (flatten_colors rows) ''RED'')
        \<and> 0 \<le> p \<and> p \<le> 1"
    by (intro exI [of _ ?p] conjI)
qed

theorem prob_red_correct_witness:
  "[''red, blew,BLUE '', '' , Blu ,red,,''] \<noteq> []
   \<and> main_prob_red [''red, blew,BLUE '', '' , Blu ,red,,''] = Some (Inr (2 / 5))
   \<and> sum_list (map snd (Counter (flatten_colors [''red, blew,BLUE '', '' , Blu ,red,,'']))) = 5
   \<and> dict_get (Counter (flatten_colors [''red, blew,BLUE '', '' , Blu ,red,,''])) ''RED'' 0 = 2
   \<and> main_prob_red ['' ''] = Some (Inr 0)"
proof -
  let ?rows = "[''red, blew,BLUE '', '' , Blu ,red,,'']"
  have n: "?rows \<noteq> []" by simp
  have c: "Counter (flatten_colors ?rows) = [(''RED'', 2), (''BLUE'', 3)]"
    by code_simp
  have t: "sum_list (map snd (Counter (flatten_colors ?rows))) = 5"
    unfolding c by simp
  have g: "dict_get (Counter (flatten_colors ?rows)) ''RED'' 0 = 2"
    unfolding c by (simp add: dict_get_def)
  from prob_red_correct [of ?rows] n
  obtain p where p: "main_prob_red ?rows = Some (Inr p)"
    and v: "p = (if sum_list (map snd (Counter (flatten_colors ?rows))) = 0 then 0
               else of_int (dict_get (Counter (flatten_colors ?rows)) ''RED'' 0)
                    / of_int (sum_list (map snd (Counter (flatten_colors ?rows)))))"
    by blast
  from v have "p = 2 / 5" unfolding t g by simp
  with p have a: "main_prob_red ?rows = Some (Inr (2 / 5))" by simp
  have e: "flatten_colors ['' ''] = []" by code_simp
  have b: "main_prob_red ['' ''] = Some (Inr 0)"
    by (simp add: main_prob_red_def e prob_red_def Counter_def dict_get_def)
  from n a t g b show ?thesis by blast
qed

subsection \<open>Saving to PostgreSQL\<close>

lemma upsert_all_result:
  "upsert_all env i items t = Inr t' \<Longrightarrow> distinct (map fst items) \<Longrightarrow> t' = t ++ map_of items"
proof (induction env i items t rule: upsert_all.induct)
  case (1 env i t)
  then show ?case by simp
next
  case (2 env i color count items t)
  from "2.prems"(1) have ok: "env i (Upsert color count) = None"
    and range: "\<not> (count < - (2 ^ 31) \<or> 2 ^ 31 \<le> count)"
    and rest: "upsert_all env (Suc i) items (t(color \<mapsto> count)) = Inr t'"
    by (auto split: option.splits if_splits)
  from "2.prems"(2) have fresh: "color \<notin> dom (map_of items)" and d: "distinct (map fst items)"
    by (simp_all add: dom_map_of_conv_image_fst)
  have "t' = t(color \<mapsto> count) ++ map_of items"
    using ok range rest d by (rule "2.IH")
  also have "\<dots> = (t ++ map_of items)(color \<mapsto> count)"
    using fresh by (rule map_add_upd_left)
  also have "\<dots> = t ++ map_of ((color, count) # items)"
    by simp
  finally show ?case .
qed

lemma upsert_all_raised:
  "upsert_all env i items t = Inl e \<Longrightarrow>
     (\<exists>j c. env j c = Some e) \<or> e = Exception ''integer out of range''"
proof (induction env i items t rule: upsert_all.induct)
  case (1 env i t)
  then show ?case by simp
next
  case (2 env i color count items t)
  show ?case
  proof (cases "env i (Upsert color count)")
    case (Some e')
    with "2.prems" have "e' = e" by simp
    with Some show ?thesis by blast
  next
    case None
    show ?thesis
    proof (cases "count < - (2 ^ 31) \<or> 2 ^ 31 \<le> count")
      case True
      with None "2.prems" show ?thesis by simp
    next
      case False
      with None "2.prems" have "upsert_all env (Suc i) items (t(color \<mapsto> count)) = Inl e"
        by simp
      with None False show ?thesis by (rule "2.IH")
    qed
  qed
qed

lemma upsert_all_env:
  "(\<And>j c n. env j (Upsert c n) = env' j (Upsert c n)) \<Longrightarrow>
     upsert_all env i items t = upsert_all env' i items t"
  by (induction env i items t rule: upsert_all.induct) (simp_all split: option.splits)

lemma try_body_Inr:
  "try_body env freq dbname w = Inr w' \<Longrightarrow>
     \<exists>t. upsert_all env 3 freq (case tables w dbname of None \<Rightarrow> Map.empty | Some t \<Rightarrow> t) = Inr t
        \<and> w' = w\<lparr>tables := (tables w)(dbname := Some t), stdout := stdout w @ [Saved]\<rparr>"
  by (simp add: try_body_def Let_def split: option.splits sum.splits)

lemma try_body_Inl:
  "try_body env freq dbname w = Inl (e, w1) \<Longrightarrow>
     stdout w1 = stdout w
     \<and> ((\<exists>j c. env j c = Some e) \<or> e = Exception ''integer out of range'')"
  by (auto simp: try_body_def Let_def split: option.splits sum.splits dest: upsert_all_raised)


lemma upsert_all_calls:
  "upsert_all env k items t = Inr t' \<Longrightarrow> j < length items \<Longrightarrow>
     env (k + j) (Upsert (fst (items ! j)) (snd (items ! j))) = None"
proof (induction env k items t arbitrary: j rule: upsert_all.induct)
  case (1 env i t)
  then show ?case by simp
next
  case (2 env i color count items t)
  from "2.prems"(1) have ok: "env i (Upsert color count) = None"
    and range: "\<not> (count < - (2 ^ 31) \<or> 2 ^ 31 \<le> count)"
    and rest: "upsert_all env (Suc i) items (t(color \<mapsto> count)) = Inr t'"
    by (auto split: option.splits if_splits)
  show ?case
  proof (cases j)
    case 0
    with ok show ?thesis by simp
  next
    case (Suc j')
    with "2.prems"(2) have "j' < length items" by simp
    with ok range rest
    have "env (Suc i + j') (Upsert (fst (items ! j')) (snd (items ! j'))) = None"
      by (rule "2.IH")
    with Suc show ?thesis by simp
  qed
qed

lemma try_body_Inr_calls:
  "try_body env freq dbname w = Inr w' \<Longrightarrow>
     env 0 (Connect dbname ''postgres'' '''' ''localhost'' ''5432'') = None
     \<and> env 1 Cursor = None
     \<and> env 2 Create_table = None
     \<and> (\<forall>j<length freq. env (3 + j) (Upsert (fst (freq ! j)) (snd (freq ! j))) = None)
     \<and> env (3 + length freq) Commit = None
     \<and> env (4 + length freq) Close_cursor = None
     \<and> env (5 + length freq) Close_conn = None
     \<and> env (6 + length freq) (Print Saved) = None"
  by (auto simp: try_body_def Let_def split: option.splits sum.splits dest: upsert_all_calls)

text \<open>
  C6. A successful run of \<open>save_to_postgres\<close> (it returns and has printed the success
  message) on a frequency table leaves, in the table \<open>color_frequencies\<close> of the database
  \<open>dbname\<close>, every color of the frequency table mapped to its count, and every other color
  as it was before the run (absent if it was absent, or if there was no table); the tables
  of the other databases are untouched.
\<close>

theorem save_to_postgres_upserts:
  assumes "distinct (map fst freq)"
    and "save_to_postgres env freq dbname user password host port w = Inr w'"
    and "stdout w' = stdout w @ [Saved]"
  shows "\<exists>t'. tables w' dbname = Some t'
      \<and> (\<forall>c n. (c, n) \<in> set freq \<longrightarrow> t' c = Some n)
      \<and> (\<forall>c. c \<notin> fst ` set freq \<longrightarrow>
            t' c = (case tables w dbname of None \<Rightarrow> None | Some t \<Rightarrow> t c))
      \<and> (\<forall>d. d \<noteq> dbname \<longrightarrow> tables w' d = tables w d)"
proof -
  let ?t0 = "case tables w dbname of None \<Rightarrow> Map.empty | Some t \<Rightarrow> t"
  have body: "try_body env freq dbname w = Inr w'"
  proof (cases "try_body env freq dbname w")
    case (Inr w2)
    with assms(2) show ?thesis by (simp add: save_to_postgres_def)
  next
    case (Inl ew)
    obtain e w1 where ew: "ew = (e, w1)" by (cases ew)
    from Inl ew have out: "stdout w1 = stdout w" using try_body_Inl by blast
    show ?thesis
    proof (cases e)
      case (Exception msg)
      with Inl ew assms(2) have "w' = w1\<lparr>stdout := stdout w1 @ [Error_saving msg]\<rparr>"
        by (simp add: save_to_postgres_def split: option.splits)
      with out assms(3) show ?thesis by simp
    next
      case (Other_BaseException msg)
      with Inl ew assms(2) show ?thesis by (simp add: save_to_postgres_def)
    qed
  qed
  then obtain t where t: "upsert_all env 3 freq ?t0 = Inr t"
    and w': "w' = w\<lparr>tables := (tables w)(dbname := Some t), stdout := stdout w @ [Saved]\<rparr>"
    using try_body_Inr by blast
  from t assms(1) have eq: "t = ?t0 ++ map_of freq" by (rule upsert_all_result)
  have 1: "tables w' dbname = Some t" by (simp add: w')
  have 2: "\<forall>c n. (c, n) \<in> set freq \<longrightarrow> t c = Some n"
    using assms(1) by (simp add: eq map_add_Some_iff)
  have 3: "\<forall>c. c \<notin> fst ` set freq \<longrightarrow>
      t c = (case tables w dbname of None \<Rightarrow> None | Some t \<Rightarrow> t c)"
  proof (intro allI impI)
    fix c assume "c \<notin> fst ` set freq"
    then have "map_of freq c = None" by (simp add: map_of_eq_None_iff)
    then have "t c = ?t0 c" by (simp add: eq map_add_def)
    then show "t c = (case tables w dbname of None \<Rightarrow> None | Some t \<Rightarrow> t c)"
      by (simp split: option.splits)
  qed
  have 4: "\<forall>d. d \<noteq> dbname \<longrightarrow> tables w' d = tables w d" by (simp add: w')
  from 1 2 3 4 show ?thesis by blast
qed

text \<open>
  C7, as stated: \<open>save_to_postgres\<close> never propagates an exception, the handler printing an
  error message and returning normally after any failure of the connection. When the
  server refuses the connection and the standard output cannot take the error message,
  the \<^verbatim>\<open>print\<close> of the handler raises inside the \<^verbatim>\<open>except\<close> block, where nothing catches
  it: the exception leaves the function, and nothing has been printed.
\<close>

theorem save_to_postgres_counterexample:
  "save_to_postgres refused_unprintable [(''RED'', 2)] ''colors_db''
       ''postgres'' ''postgres'' ''localhost'' ''5432'' empty_world
     = Inl (Exception ''UnicodeEncodeError'', empty_world)"
  by (simp add: save_to_postgres_def try_body_def refused_unprintable_def)

text \<open>
  C7, amended. Whatever the frequency table, when what the calls raise are instances of
  \<open>Exception\<close>, as the errors of the driver and of \<^verbatim>\<open>print\<close> are: a failure of the
  connection, of the cursor, of a statement, of the commit, of a close or of the \<^verbatim>\<open>print\<close> of
  the success message makes the \<^verbatim>\<open>try\<close> body raise; whatever the body raises is caught by
  the one handler, nothing having been printed so far, and the handler prints the error
  message with the text of the exception. When that \<^verbatim>\<open>print\<close> succeeds,
  \<open>save_to_postgres\<close> returns normally, the error message being all it has printed; when
  that \<^verbatim>\<open>print\<close> itself raises, its exception propagates to the caller and nothing has
  been printed. Either way no success message is printed after a failure. When the body does
  not raise, the function returns normally and the success message is all it has printed.
\<close>

theorem save_to_postgres_catches_amended:
  assumes "\<forall>i c e. env i c = Some e \<longrightarrow> (\<exists>msg. e = Exception msg)"
  shows "((env 0 (Connect dbname ''postgres'' '''' ''localhost'' ''5432'') \<noteq> None
           \<or> env 1 Cursor \<noteq> None
           \<or> env 2 Create_table \<noteq> None
           \<or> (\<exists>j<length freq. env (3 + j) (Upsert (fst (freq ! j)) (snd (freq ! j))) \<noteq> None)
           \<or> env (3 + length freq) Commit \<noteq> None
           \<or> env (4 + length freq) Close_cursor \<noteq> None
           \<or> env (5 + length freq) Close_conn \<noteq> None
           \<or> env (6 + length freq) (Print Saved) \<noteq> None)
          \<longrightarrow> (\<exists>e w1. try_body env freq dbname w = Inl (e, w1)))
      \<and> (case try_body env freq dbname w of
            Inr w2 \<Rightarrow>
              save_to_postgres env freq dbname user password host port w = Inr w2
              \<and> stdout w2 = stdout w @ [Saved]
          | Inl (e, w1) \<Rightarrow>
              (\<exists>msg. e = Exception msg \<and> stdout w1 = stdout w
                 \<and> (case env (7 + length freq) (Print (Error_saving msg)) of
                      None \<Rightarrow>
                        save_to_postgres env freq dbname user password host port w
                          = Inr (w1\<lparr>stdout := stdout w @ [Error_saving msg]\<rparr>)
                    | Some e' \<Rightarrow>
                        save_to_postgres env freq dbname user password host port w
                          = Inl (e', w1))))"
proof (rule conjI)
  show "(env 0 (Connect dbname ''postgres'' '''' ''localhost'' ''5432'') \<noteq> None
           \<or> env 1 Cursor \<noteq> None
           \<or> env 2 Create_table \<noteq> None
           \<or> (\<exists>j<length freq. env (3 + j) (Upsert (fst (freq ! j)) (snd (freq ! j))) \<noteq> None)
           \<or> env (3 + length freq) Commit \<noteq> None
           \<or> env (4 + length freq) Close_cursor \<noteq> None
           \<or> env (5 + length freq) Close_conn \<noteq> None
           \<or> env (6 + length freq) (Print Saved) \<noteq> None)
        \<longrightarrow> (\<exists>e w1. try_body env freq dbname w = Inl (e, w1))"
  proof (cases "try_body env freq dbname w")
    case (Inl ew)
    then show ?thesis by (cases ew) simp
  next
    case (Inr w2)
    from try_body_Inr_calls [OF Inr] show ?thesis by auto
  qed
next
  show "case try_body env freq dbname w of
            Inr w2 \<Rightarrow>
              save_to_postgres env freq dbname user password host port w = Inr w2
              \<and> stdout w2 = stdout w @ [Saved]
          | Inl (e, w1) \<Rightarrow>
              (\<exists>msg. e = Exception msg \<and> stdout w1 = stdout w
                 \<and> (case env (7 + length freq) (Print (Error_saving msg)) of
                      None \<Rightarrow>
                        save_to_postgres env freq dbname user password host port w
                          = Inr (w1\<lparr>stdout := stdout w @ [Error_saving msg]\<rparr>)
                    | Some e' \<Rightarrow>
                        save_to_postgres env freq dbname user password host port w
                          = Inl (e', w1)))"
  proof (cases "try_body env freq dbname w")
    case (Inr w2)
    then have "stdout w2 = stdout w @ [Saved]" using try_body_Inr by fastforce
    with Inr show ?thesis by (simp add: save_to_postgres_def)
  next
    case (Inl ew)
    obtain e w1 where ew: "ew = (e, w1)" by (cases ew)
    from Inl ew have out: "stdout w1 = stdout w"
      and src: "(\<exists>j c. env j c = Some e) \<or> e = Exception ''integer out of range''"
      using try_body_Inl by blast+
    from src assms obtain msg where msg: "e = Exception msg" by blast
    show ?thesis
    proof (cases "env (7 + length freq) (Print (Error_saving msg))")
      case None
      with Inl ew out msg show ?thesis by (simp add: save_to_postgres_def)
    next
      case (Some e')
      with Inl ew out msg show ?thesis by (simp add: save_to_postgres_def)
    qed
  qed
qed

theorem save_to_postgres_catches_amended_witness:
  "save_to_postgres refused [(''RED'', 2)] ''colors_db''
       ''postgres'' ''postgres'' ''localhost'' ''5432'' empty_world
     = Inr (empty_world\<lparr>stdout := [Error_saving ''connection refused'']\<rparr>)
   \<and> save_to_postgres refused_unprintable [(''RED'', 2)] ''colors_db''
       ''postgres'' ''postgres'' ''localhost'' ''5432'' empty_world
     = Inl (Exception ''UnicodeEncodeError'', empty_world)
   \<and> save_to_postgres all_succeed [(''RED'', 2 ^ 31)] ''colors_db''
       ''postgres'' ''postgres'' ''localhost'' ''5432'' empty_world
     = Inr (empty_world\<lparr>stdout := [Error_saving ''integer out of range'']\<rparr>)
   \<and> save_to_postgres saved_unprintable [(''RED'', 2)] ''colors_db''
       ''postgres'' ''postgres'' ''localhost'' ''5432'' empty_world
     = Inr (empty_world\<lparr>tables := (tables empty_world)(''colors_db'' := Some [''RED'' \<mapsto> 2]),
                         stdout := [Error_saving ''UnicodeEncodeError'']\<rparr>)"
proof -
  have h4: "\<forall>i c e. saved_unprintable i c = Some e \<longrightarrow> (\<exists>msg. e = Exception msg)"
    by (simp add: saved_unprintable_def split: outside_call.splits message.splits)
  have b4: "try_body saved_unprintable [(''RED'', 2)] ''colors_db'' empty_world
      = Inl (Exception ''UnicodeEncodeError'',
             empty_world\<lparr>tables := (tables empty_world)(''colors_db'' := Some [''RED'' \<mapsto> 2])\<rparr>)"
    by (simp add: try_body_def saved_unprintable_def empty_world_def)
  have p4: "saved_unprintable 8 (Print (Error_saving ''UnicodeEncodeError'')) = None"
    by (simp add: saved_unprintable_def)
  have h1: "\<forall>i c e. refused i c = Some e \<longrightarrow> (\<exists>msg. e = Exception msg)"
    by (simp add: refused_def split: outside_call.splits)
  have h2: "\<forall>i c e. refused_unprintable i c = Some e \<longrightarrow> (\<exists>msg. e = Exception msg)"
    by (simp add: refused_unprintable_def split: outside_call.splits message.splits)
  have h3: "\<forall>i c e. all_succeed i c = Some e \<longrightarrow> (\<exists>msg. e = Exception msg)"
    by (simp add: all_succeed_def)
  have b1: "try_body refused [(''RED'', 2)] ''colors_db'' empty_world
      = Inl (Exception ''connection refused'', empty_world)"
    by (simp add: try_body_def refused_def)
  have b2: "try_body refused_unprintable [(''RED'', 2)] ''colors_db'' empty_world
      = Inl (Exception ''connection refused'', empty_world)"
    by (simp add: try_body_def refused_unprintable_def)
  have b3: "try_body all_succeed [(''RED'', 2 ^ 31)] ''colors_db'' empty_world
      = Inl (Exception ''integer out of range'', empty_world)"
    by (simp add: try_body_def all_succeed_def)
  have p1: "refused 8 (Print (Error_saving ''connection refused'')) = None"
    by (simp add: refused_def)
  have p2: "refused_unprintable 8 (Print (Error_saving ''connection refused''))
      = Some (Exception ''UnicodeEncodeError'')"
    by (simp add: refused_unprintable_def)
  have p3: "all_succeed 8 (Print (Error_saving ''integer out of range'')) = None"
    by (simp add: all_succeed_def)
  have s: "stdout empty_world = []" by (simp add: empty_world_def)
  from save_to_postgres_catches_amended [OF h1, of "''colors_db''" "[(''RED'', 2)]" empty_world
      "''postgres''" "''postgres''" "''localhost''" "''5432''"]
  have 1: "save_to_postgres refused [(''RED'', 2)] ''colors_db''
       ''postgres'' ''postgres'' ''localhost'' ''5432'' empty_world
     = Inr (empty_world\<lparr>stdout := [Error_saving ''connection refused'']\<rparr>)"
    unfolding b1 by (simp add: p1 s)
  from save_to_postgres_catches_amended [OF h2, of "''colors_db''" "[(''RED'', 2)]" empty_world
      "''postgres''" "''postgres''" "''localhost''" "''5432''"]
  have 2: "save_to_postgres refused_unprintable [(''RED'', 2)] ''colors_db''
       ''postgres'' ''postgres'' ''localhost'' ''5432'' empty_world
     = Inl (Exception ''UnicodeEncodeError'', empty_world)"
    unfolding b2 by (simp add: p2 s)
  from save_to_postgres_catches_amended [OF h3, of "''colors_db''" "[(''RED'', 2 ^ 31)]" empty_world
      "''postgres''" "''postgres''" "''localhost''" "''5432''"]
  have 3: "save_to_postgres all_succeed [(''RED'', 2 ^ 31)] ''colors_db''
       ''postgres'' ''postgres'' ''localhost'' ''5432'' empty_world
     = Inr (empty_world\<lparr>stdout := [Error_saving ''integer out of range'']\<rparr>)"
    unfolding b3 by (simp add: p3 s)
  from save_to_postgres_catches_amended [OF h4, of "''colors_db''" "[(''RED'', 2)]" empty_world
      "''postgres''" "''postgres''" "''localhost''" "''5432''"]
  have 4: "save_to_postgres saved_unprintable [(''RED'', 2)] ''colors_db''
       ''postgres'' ''postgres'' ''localhost'' ''5432'' empty_world
     = Inr (empty_world\<lparr>tables := (tables empty_world)(''colors_db'' := Some [''RED'' \<mapsto> 2]),
                         stdout := [Error_saving ''UnicodeEncodeError'']\<rparr>)"
    unfolding b4 by (simp add: p4 s)
  from 1 2 3 4 show ?thesis by blast
qed

text \<open>
  C10. \<open>save_to_postgres\<close> ignores its \<open>user\<close>, \<open>password\<close>, \<open>host\<close> and \<open>port\<close> arguments: with
  the same frequency table, database name and world, any two assignments to them give the
  same result. The connection is always asked for \<open>dbname\<close> as user \<open>postgres\<close> with the empty
  password at \<open>localhost\<close>, port \<open>5432\<close>: how the environment would answer a connection with
  any other parameters makes no difference either.
\<close>

theorem save_to_postgres_ignores_credentials:
  "save_to_postgres env freq dbname user password host port w
     = save_to_postgres env freq dbname user' password' host' port' w
   \<and> ((\<forall>i c. (\<forall>d u p h po. c = Connect d u p h po \<longrightarrow>
                 d = dbname \<and> u = ''postgres'' \<and> p = '''' \<and> h = ''localhost'' \<and> po = ''5432'')
              \<longrightarrow> env i c = env' i c)
        \<longrightarrow> save_to_postgres env freq dbname user password host port w
            = save_to_postgres env' freq dbname user' password' host' port' w)"
proof (intro conjI impI)
  show "save_to_postgres env freq dbname user password host port w
     = save_to_postgres env freq dbname user' password' host' port' w"
    by (simp add: save_to_postgres_def)
next
  assume same: "\<forall>i c. (\<forall>d u p h po. c = Connect d u p h po \<longrightarrow>
                 d = dbname \<and> u = ''postgres'' \<and> p = '''' \<and> h = ''localhost'' \<and> po = ''5432'')
              \<longrightarrow> env i c = env' i c"
  have c0: "env 0 (Connect dbname ''postgres'' '''' ''localhost'' ''5432'')
      = env' 0 (Connect dbname ''postgres'' '''' ''localhost'' ''5432'')"
    using same by simp
  have c1: "env i Cursor = env' i Cursor" for i using same by simp
  have c2: "env i Create_table = env' i Create_table" for i using same by simp
  have c3: "env i (Upsert c n) = env' i (Upsert c n)" for i c n using same by simp
  have c4: "env i Commit = env' i Commit" for i using same by simp
  have c5: "env i Close_cursor = env' i Close_cursor" for i using same by simp
  have c6: "env i Close_conn = env' i Close_conn" for i using same by simp
  have c7: "env i (Print m) = env' i (Print m)" for i m using same by simp
  have u: "upsert_all env i items t = upsert_all env' i items t" for i items t
    using c3 by (rule upsert_all_env)
  have "try_body env freq dbname w = try_body env' freq dbname w"
    unfolding try_body_def by (simp only: c0 c1 c2 c4 c5 c6 c7 u)
  then show "save_to_postgres env freq dbname user password host port w
            = save_to_postgres env' freq dbname user' password' host' port' w"
    unfolding save_to_postgres_def by (simp only: c7)
qed


theorem save_to_postgres_upserts_witness:
  "distinct (map fst [(''RED'', 2 :: int), (''BLUE'', 3)])
   \<and> save_to_postgres (\<lambda>i c. None) [(''RED'', 2), (''BLUE'', 3)] ''colors_db''
         ''postgres'' ''postgres'' ''localhost'' ''5432''
         \<lparr>tables = (\<lambda>d. if d = ''colors_db'' then Some [''RED'' \<mapsto> 7, ''PINK'' \<mapsto> 1] else None),
          stdout = []\<rparr>
       = Inr \<lparr>tables = (\<lambda>d. if d = ''colors_db'' then Some [''RED'' \<mapsto> 7, ''PINK'' \<mapsto> 1] else None)
                  (''colors_db'' := Some [''RED'' \<mapsto> 2, ''PINK'' \<mapsto> 1, ''BLUE'' \<mapsto> 3]),
              stdout = [Saved]\<rparr>
   \<and> (\<exists>t'. ((\<lambda>d. if d = ''colors_db'' then Some [''RED'' \<mapsto> 7 :: int, ''PINK'' \<mapsto> 1] else None)
                  (''colors_db'' := Some [''RED'' \<mapsto> 2, ''PINK'' \<mapsto> 1, ''BLUE'' \<mapsto> 3])) ''colors_db''
              = Some t'
          \<and> t' ''RED'' = Some 2 \<and> t' ''BLUE'' = Some 3 \<and> t' ''PINK'' = Some 1
          \<and> t' ''GREEN'' = None)"
proof -
  let ?freq = "[(''RED'', 2 :: int), (''BLUE'', 3)]"
  let ?tabs = "\<lambda>d. if d = ''colors_db'' then Some [''RED'' \<mapsto> 7 :: int, ''PINK'' \<mapsto> 1] else None"
  let ?w = "\<lparr>tables = ?tabs, stdout = []\<rparr>"
  let ?w' = "\<lparr>tables = ?tabs(''colors_db'' := Some [''RED'' \<mapsto> 2, ''PINK'' \<mapsto> 1, ''BLUE'' \<mapsto> 3]),
              stdout = [Saved]\<rparr>"
  have d: "distinct (map fst ?freq)" by simp
  have run: "save_to_postgres (\<lambda>i c. None) ?freq ''colors_db''
      ''postgres'' ''postgres'' ''localhost'' ''5432'' ?w = Inr ?w'"
    by (simp add: save_to_postgres_def try_body_def fun_upd_twist)
  have out: "stdout ?w' = stdout ?w @ [Saved]" by simp
  from save_to_postgres_upserts [OF d run out]
  obtain t' where t: "tables ?w' ''colors_db'' = Some t'"
    and new: "\<forall>c n. (c, n) \<in> set ?freq \<longrightarrow> t' c = Some n"
    and old: "\<forall>c. c \<notin> fst ` set ?freq \<longrightarrow>
        t' c = (case tables ?w ''colors_db'' of None \<Rightarrow> None | Some t \<Rightarrow> t c)"
    by blast
  from new have r: "t' ''RED'' = Some 2" and b: "t' ''BLUE'' = Some 3" by simp_all
  from old [rule_format, of "''PINK''"] have p: "t' ''PINK'' = Some 1" by simp
  from old [rule_format, of "''GREEN''"] have g: "t' ''GREEN'' = None" by simp
  from t have t2: "(?tabs(''colors_db'' := Some [''RED'' \<mapsto> 2, ''PINK'' \<mapsto> 1, ''BLUE'' \<mapsto> 3]))
      ''colors_db'' = Some t'"
    by simp
  from d run t2 r b p g show ?thesis by blast
qed

theorem save_to_postgres_ignores_credentials_witness:
  "save_to_postgres
       (\<lambda>i c. if c = Connect ''colors_db'' ''alice'' ''secret'' ''db.example.org'' ''6543''
               then Some (Exception ''refused'') else None)
       [(''RED'', 2)] ''colors_db'' ''alice'' ''secret'' ''db.example.org'' ''6543''
       \<lparr>tables = (\<lambda>d. None), stdout = []\<rparr>
     = save_to_postgres (\<lambda>i c. None)
       [(''RED'', 2)] ''colors_db'' ''postgres'' ''postgres'' ''localhost'' ''5432''
       \<lparr>tables = (\<lambda>d. None), stdout = []\<rparr>
   \<and> save_to_postgres (\<lambda>i c. None)
       [(''RED'', 2)] ''colors_db'' ''postgres'' ''postgres'' ''localhost'' ''5432''
       \<lparr>tables = (\<lambda>d. None), stdout = []\<rparr>
     = Inr \<lparr>tables = (\<lambda>d. None)(''colors_db'' := Some [''RED'' \<mapsto> 2]), stdout = [Saved]\<rparr>"
proof -
  let ?env = "\<lambda>(i :: nat) c. if c = Connect ''colors_db'' ''alice'' ''secret'' ''db.example.org'' ''6543''
               then Some (Exception ''refused'') else None"
  let ?none = "\<lambda>(i :: nat) (c :: outside_call). (None :: raised option)"
  let ?w = "\<lparr>tables = (\<lambda>d. None), stdout = []\<rparr>"
  have h: "\<forall>i c. (\<forall>d u p h po. c = Connect d u p h po \<longrightarrow>
        d = ''colors_db'' \<and> u = ''postgres'' \<and> p = '''' \<and> h = ''localhost'' \<and> po = ''5432'')
      \<longrightarrow> ?env i c = ?none i c"
    by simp
  from save_to_postgres_ignores_credentials [of ?env "[(''RED'', 2)]" "''colors_db''"
      "''alice''" "''secret''" "''db.example.org''" "''6543''" ?w
      "''postgres''" "''postgres''" "''localhost''" "''5432''" ?none] h
  have 1: "save_to_postgres ?env [(''RED'', 2)] ''colors_db''
        ''alice'' ''secret'' ''db.example.org'' ''6543'' ?w
      = save_to_postgres ?none [(''RED'', 2)] ''colors_db''
        ''postgres'' ''postgres'' ''localhost'' ''5432'' ?w"
    by blast
  have 2: "save_to_postgres ?none [(''RED'', 2)] ''colors_db''
        ''postgres'' ''postgres'' ''localhost'' ''5432'' ?w
      = Inr \<lparr>tables = (\<lambda>d. None)(''colors_db'' := Some [''RED'' \<mapsto> 2]), stdout = [Saved]\<rparr>"
    by (simp add: save_to_postgres_def try_body_def)
  from 1 2 show ?thesis by (rule conjI)
qed

subsection \<open>Normalization\<close>

text \<open>
  C2, as stated: \<open>normalize_color s\<close> is \<open>BLUE\<close> exactly when the stripped, upper-cased form
  of \<open>s\<close> is one of the misspellings \<open>BLEW\<close>, \<open>BLUW\<close>, \<open>BLU\<close>. The input \<open>BLUE\<close> is none of
  the three and is returned as it is, so the result is \<open>BLUE\<close> there too.
\<close>

theorem normalize_color_counterexample:
  "\<not> (normalize_color ''BLUE'' = ''BLUE'' \<longleftrightarrow>
        py_upper (py_strip ''BLUE'') \<in> {''BLEW'', ''BLUW'', ''BLU''})"
  by code_simp

text \<open>
  C2, amended: \<open>normalize_color s\<close> is \<open>BLUE\<close> when the stripped, upper-cased form of \<open>s\<close> is
  one of the three misspellings, and is that form itself otherwise; so it is \<open>BLUE\<close> exactly
  when the form is one of the three misspellings or \<open>BLUE\<close> itself. The result is a function
  of the stripped, upper-cased form alone.
\<close>

theorem normalize_color_amended:
  "normalize_color s =
     (if py_upper (py_strip s) \<in> {''BLEW'', ''BLUW'', ''BLU''} then ''BLUE''
      else py_upper (py_strip s))
   \<and> (normalize_color s = ''BLUE'' \<longleftrightarrow>
        py_upper (py_strip s) \<in> {''BLEW'', ''BLUW'', ''BLU'', ''BLUE''})
   \<and> (py_upper (py_strip s) = py_upper (py_strip t) \<longrightarrow> normalize_color s = normalize_color t)"
  by (simp add: normalize_color_def dict_get_def corrections_def Let_def)

theorem normalize_color_amended_witness:
  "normalize_color '' blew '' = ''BLUE'' \<and> py_upper (py_strip '' blew '') = ''BLEW''
   \<and> normalize_color ''Red'' = ''RED'' \<and> py_upper (py_strip ''Red'') = ''RED''
   \<and> py_upper (py_strip ''BLUE'') = py_upper (py_strip ''blue  '')
   \<and> normalize_color ''BLUE'' = normalize_color ''blue  ''"
proof -
  have a: "py_upper (py_strip '' blew '') = ''BLEW''" by code_simp
  have b: "py_upper (py_strip ''Red'') = ''RED''" by code_simp
  have c: "py_upper (py_strip ''BLUE'') = py_upper (py_strip ''blue  '')" by code_simp
  from normalize_color_amended [of "'' blew ''"] a
  have 1: "normalize_color '' blew '' = ''BLUE''" by simp
  from normalize_color_amended [of "''Red''"] b
  have 2: "normalize_color ''Red'' = ''RED''" by simp
  from normalize_color_amended [of "''BLUE''" "''blue  ''"] c
  have 3: "normalize_color ''BLUE'' = normalize_color ''blue  ''" by blast
  from 1 2 3 a b c show ?thesis by simp
qed

end
